theory Spec2Isabelle
  imports Main
begin

section \<open>The development tasks of \<^verbatim>\<open>src/project/tasks.py\<close>\<close>

text \<open>
  The script defines its tasks as wrappers around shell commands. Its only structural
  logic is the decorator \<^verbatim>\<open>python(versions)\<close>, which runs a task body once per Python
  version with the \<^verbatim>\<open>PATH\<close> of the matching poetry virtualenv, the context manager
  \<^verbatim>\<open>setpath\<close> it uses, and the path computation \<^verbatim>\<open>get_poetry_venv\<close>.

  Python strings are modelled as \<open>string\<close>. The three string operations the script
  uses (\<^verbatim>\<open>endswith\<close>, \<^verbatim>\<open>split("-")\<close>, \<^verbatim>\<open>"-".join\<close>) compare and cut at ASCII characters
  only, so they act on the UTF-8 bytes of a text as they act on its code points.
\<close>

subsection \<open>String operations of the Python library\<close>

text \<open>\<^verbatim>\<open>s.endswith(t)\<close>.\<close>

definition endswith :: "string \<Rightarrow> string \<Rightarrow> bool" where
  "endswith s t = (length t \<le> length s \<and> drop (length s - length t) s = t)"

text \<open>
  \<^verbatim>\<open>s.split(sep)\<close> for a separator of one character: the pieces between the
  occurrences of the separator, empty pieces included; never an empty list.
\<close>

fun split_str :: "char \<Rightarrow> string \<Rightarrow> string list" where
  "split_str sep [] = [[]]"
| "split_str sep (c # cs) =
     (if c = sep then [] # split_str sep cs
      else (case split_str sep cs of
              [] \<Rightarrow> [[c]]
            | p # ps \<Rightarrow> (c # p) # ps))"

text \<open>\<^verbatim>\<open>sep.join(parts)\<close>.\<close>

fun join :: "string \<Rightarrow> string list \<Rightarrow> string" where
  "join sep [] = []"
| "join sep [p] = p"
| "join sep (p # q # ps) = p @ sep @ join sep (q # ps)"

subsection \<open>Exceptions\<close>

text \<open>
  \<open>KeyError\<close> is raised by \<^verbatim>\<open>os.environ[name]\<close> for a variable that is not set,
  \<open>AttributeError\<close> by \<^verbatim>\<open>del context.python_version\<close> for an attribute that is not
  there, and \<open>TaskFailure\<close> stands for whatever a task body raises (a command that
  exits with a non-zero status makes \<^verbatim>\<open>context.run\<close> raise).
\<close>

datatype exn = KeyError string | AttributeError string | TaskFailure string

subsection \<open>\<^verbatim>\<open>get_poetry_venv\<close> (lines 18 to 23)\<close>

text \<open>
  The function reads \<^verbatim>\<open>os.environ\<close> only; the environment is a map from variable
  names to values. \<^verbatim>\<open>xs[:-1]\<close> is \<open>butlast xs\<close> (both give \<open>[]\<close> on \<open>[]\<close>).
\<close>

definition get_poetry_venv :: "string \<Rightarrow> (string \<rightharpoonup> string) \<Rightarrow> exn + string" where
  "get_poetry_venv python_version env =
     (case env ''VIRTUAL_ENV'' of
        None \<Rightarrow> Inl (KeyError ''VIRTUAL_ENV'')
      | Some current_venv \<Rightarrow>
          if endswith current_venv (''py'' @ python_version) then Inr current_venv
          else Inr (join ''-'' (butlast (split_str CHR ''-'' current_venv))
                    @ ''-py'' @ python_version))"

subsection \<open>\<^verbatim>\<open>Path(venv) / "bin"\<close> (line 47)\<close>

text \<open>
  The script joins the search path with \<^verbatim>\<open>:\<close>, so it runs where \<^verbatim>\<open>Path\<close> is a
  POSIX path. \<^verbatim>\<open>pathlib\<close> keeps the root of a path (\<^verbatim>\<open>//\<close> for exactly two leading
  slashes, \<^verbatim>\<open>/\<close> for any other number of them) and its segments, without the empty
  ones and the \<^verbatim>\<open>.\<close> ones; \<^verbatim>\<open>/ "bin"\<close> adds a segment, and the f-string of line 30
  formats the path as the root followed by the segments joined with \<^verbatim>\<open>/\<close>.
\<close>

definition posix_root :: "string \<Rightarrow> string" where
  "posix_root p =
     (let n = length (takeWhile (\<lambda>c. c = CHR ''/'') p)
      in if n = 0 then [] else if n = 2 then ''//'' else ''/'')"

definition posix_segments :: "string \<Rightarrow> string list" where
  "posix_segments p = filter (\<lambda>x. x \<noteq> [] \<and> x \<noteq> ''.'') (split_str CHR ''/'' p)"

definition bin_dir :: "string \<Rightarrow> string" where
  "bin_dir venv = posix_root venv @ join ''/'' (posix_segments venv @ [''bin''])"

subsection \<open>The state of the process\<close>

text \<open>
  What the decorator reads and writes: \<^verbatim>\<open>os.environ\<close> and the attribute
  \<^verbatim>\<open>python_version\<close> of the context object (\<open>None\<close> when the attribute is not
  there). Everything else a task body may change (files, the output of the commands it
  runs, other attributes of the context) is the field \<open>effects\<close>. The values
  written to \<^verbatim>\<open>os.environ\<close> are texts without a NUL character, as the values read
  from it are; for them the assignment of lines 30 and 32 does not raise.
\<close>

record 'x world =
  environ :: "string \<rightharpoonup> string"
  python_version :: "string option"
  effects :: 'x

text \<open>
  A task body called with its arguments: it changes the state and either returns
  (\<open>None\<close>) or raises (\<open>Some e\<close>). The state it leaves is there in both cases.
\<close>

type_synonym 'x task_body = "'x world \<Rightarrow> exn option \<times> 'x world"

text \<open>
  The decorator's own code is modelled with a log beside the state: the states at which
  it called the task body, in the order of the calls. The log is not part of the state,
  so a task body cannot change it.
\<close>

type_synonym 'x logged = "exn option \<times> 'x world \<times> 'x world list"

subsection \<open>\<^verbatim>\<open>setpath\<close> (lines 26 to 32)\<close>

text \<open>
  \<^verbatim>\<open>with setpath(path): block\<close>. Entering the \<^verbatim>\<open>with\<close> runs the generator up to its
  \<^verbatim>\<open>yield\<close>: line 29 reads \<^verbatim>\<open>PATH\<close> (a \<open>KeyError\<close> when it is not set) and line 30
  writes it. When the block returns, the generator is resumed and line 32 writes the
  saved value back. When the block raises, the exception is thrown into the generator at
  the \<^verbatim>\<open>yield\<close>, which is in no \<^verbatim>\<open>try\<close>: line 32 does not run and the exception goes on
  to the caller.
\<close>

definition setpath :: "string \<Rightarrow> ('x world \<Rightarrow> 'x logged) \<Rightarrow> 'x world \<Rightarrow> 'x logged" where
  "setpath path block w =
     (case environ w ''PATH'' of
        None \<Rightarrow> (Some (KeyError ''PATH''), w, [])
      | Some current_path \<Rightarrow>
          (case block (w\<lparr>environ := (environ w)(''PATH'' \<mapsto> path @ '':'' @ current_path)\<rparr>) of
             (Some e, w', calls) \<Rightarrow> (Some e, w', calls)
           | (None, w', calls) \<Rightarrow>
               (None, w'\<lparr>environ := (environ w')(''PATH'' \<mapsto> current_path)\<rparr>, calls)))"

subsection \<open>\<^verbatim>\<open>python\<close> (lines 35 to 54)\<close>

text \<open>
  Lines 48 to 50, the block of the \<^verbatim>\<open>with\<close>: set the attribute, call the task body,
  delete the attribute. The call is logged with the state the body is called at.
\<close>

definition with_block :: "'x task_body \<Rightarrow> string \<Rightarrow> 'x world \<Rightarrow> 'x logged" where
  "with_block func version w =
     (let w1 = w\<lparr>python_version := Some version\<rparr>
      in case func w1 of
           (Some e, w2) \<Rightarrow> (Some e, w2, [w1])
         | (None, w2) \<Rightarrow>
             (case python_version w2 of
                None \<Rightarrow> (Some (AttributeError ''python_version''), w2, [w1])
              | Some _ \<Rightarrow> (None, w2\<lparr>python_version := None\<rparr>, [w1])))"

text \<open>
  Lines 47 to 50, one round of the loop: the argument of \<^verbatim>\<open>setpath\<close> is computed first,
  then the \<^verbatim>\<open>with\<close> statement runs.
\<close>

definition run_version :: "'x task_body \<Rightarrow> string \<Rightarrow> 'x world \<Rightarrow> 'x logged" where
  "run_version func version w =
     (case get_poetry_venv version (environ w) of
        Inl e \<Rightarrow> (Some e, w, [])
      | Inr venv \<Rightarrow> setpath (bin_dir venv) (with_block func version) w)"

text \<open>Line 46, the loop: an exception ends it.\<close>

fun wrapped_logged :: "'x task_body \<Rightarrow> string list \<Rightarrow> 'x world \<Rightarrow> 'x logged" where
  "wrapped_logged func [] w = (None, w, [])"
| "wrapped_logged func (version # versions) w =
     (case run_version func version w of
        (Some e, w', calls) \<Rightarrow> (Some e, w', calls)
      | (None, w', calls) \<Rightarrow>
          (case wrapped_logged func versions w' of
             (r, w'', calls') \<Rightarrow> (r, w'', calls @ calls')))"

text \<open>\<^verbatim>\<open>wrapped\<close> (lines 45 to 50) is the loop without the log.\<close>

definition wrapped :: "'x task_body \<Rightarrow> string list \<Rightarrow> 'x task_body" where
  "wrapped func versions w =
     (case wrapped_logged func versions w of (r, w', calls) \<Rightarrow> (r, w'))"

definition body_calls :: "'x task_body \<Rightarrow> string list \<Rightarrow> 'x world \<Rightarrow> 'x world list" where
  "body_calls func versions w =
     (case wrapped_logged func versions w of (r, w', calls) \<Rightarrow> calls)"

text \<open>
  The argument of \<^verbatim>\<open>python\<close> is a string or a list of strings. \<^verbatim>\<open>not versions\<close> holds
  for the empty string and the empty list; line 38 then returns the identity as the
  decorator. A string that is not empty is a list of one version (lines 40 and 41).
\<close>

datatype versions_arg = VStr string | VList "string list"

fun falsy :: "versions_arg \<Rightarrow> bool" where
  "falsy (VStr s) = (s = [])"
| "falsy (VList vs) = (vs = [])"

fun as_list :: "versions_arg \<Rightarrow> string list" where
  "as_list (VStr s) = [s]"
| "as_list (VList vs) = vs"

definition python :: "versions_arg \<Rightarrow> 'x task_body \<Rightarrow> 'x task_body" where
  "python versions =
     (if falsy versions then (\<lambda>func. func)
      else (\<lambda>func. wrapped func (as_list versions)))"

definition PYTHON_VERSIONS :: "string list" where
  "PYTHON_VERSIONS = [''3.6'', ''3.7'', ''3.8'', ''3.10'']"

subsection \<open>Tasks with pre-tasks and post-tasks\<close>

text \<open>
  Lines 102 and 192 declare tasks with \<^verbatim>\<open>invoke.task\<close>: the positional arguments are
  the tasks to run before (\<^verbatim>\<open>check\<close> has four), \<^verbatim>\<open>post\<close> the tasks to run after
  (\<^verbatim>\<open>test\<close> has \<^verbatim>\<open>combine\<close>). A declared task is its name, its pre-tasks, its body and
  its post-tasks.
\<close>

datatype 'x task =
  Task (task_name: string) (pre: "'x task list") (body: "'x task_body") (post: "'x task list")

text \<open>
  Modelled from the spec: the executor that runs a declared task, which belongs to the
  \<^verbatim>\<open>invoke\<close> library and is not among the sources. Section 4.2 of the specification:
  the pre-tasks are fully executed, in declared order, before the task's own body runs;
  the post-tasks run after the body completes successfully; any failure in a pre-task or
  the body aborts the remaining chain and surfaces the failure to the invoker. The third
  component of the result lists the names of the tasks whose bodies were started, in
  order.
\<close>

fun execute :: "'x task \<Rightarrow> 'x world \<Rightarrow> exn option \<times> 'x world \<times> string list"
  and execute_all :: "'x task list \<Rightarrow> 'x world \<Rightarrow> exn option \<times> 'x world \<times> string list"
where
  "execute (Task name pres func posts) w =
     (case execute_all pres w of
        (Some e, w1, started) \<Rightarrow> (Some e, w1, started)
      | (None, w1, started) \<Rightarrow>
          (case func w1 of
             (Some e, w2) \<Rightarrow> (Some e, w2, started @ [name])
           | (None, w2) \<Rightarrow>
               (case execute_all posts w2 of
                  (r, w3, started') \<Rightarrow> (r, w3, started @ [name] @ started'))))"
| "execute_all [] w = (None, w, [])"
| "execute_all (t # ts) w =
     (case execute t w of
        (Some e, w1, started) \<Rightarrow> (Some e, w1, started)
      | (None, w1, started) \<Rightarrow>
          (case execute_all ts w1 of
             (r, w2, started') \<Rightarrow> (r, w2, started @ started')))"

subsection \<open>A task body and a state to run the decorator on\<close>

text \<open>
  \<^verbatim>\<open>context.run(cmd)\<close> runs a shell command and raises when it exits with a non-zero
  status. The commands run so far are the \<open>effects\<close>; \<open>ok\<close> tells which commands exit
  with status zero.
\<close>

definition run :: "(string \<Rightarrow> bool) \<Rightarrow> string \<Rightarrow> string list task_body" where
  "run ok cmd w =
     (let w' = w\<lparr>effects := effects w @ [cmd]\<rparr>
      in if ok cmd then (None, w') else (Some (TaskFailure cmd), w'))"

text \<open>
  The body of \<^verbatim>\<open>check_types\<close> (lines 94 to 99): one command, whose text holds
  \<^verbatim>\<open>context.python_version\<close> (the command line is shortened to the tool and the
  version).
\<close>

definition check_types :: "(string \<Rightarrow> bool) \<Rightarrow> string list task_body" where
  "check_types ok w =
     (case python_version w of
        None \<Rightarrow> (Some (AttributeError ''python_version''), w)
      | Some v \<Rightarrow> run ok (''mypy '' @ v) w)"

definition env0 :: "string \<rightharpoonup> string" where
  "env0 = [''VIRTUAL_ENV'' \<mapsto> ''/venvs/proj-Ab12-py3.6'', ''PATH'' \<mapsto> ''/usr/bin'']"

definition w0 :: "string list world" where
  "w0 = \<lparr>environ = env0, python_version = None, effects = []\<rparr>"

section \<open>Properties of the string operations\<close>

lemma endswith_iff: "endswith s t \<longleftrightarrow> (\<exists>zs. s = zs @ t)"
proof
  assume "endswith s t"
  then have "s = take (length s - length t) s @ t"
    unfolding endswith_def by (metis append_take_drop_id)
  then show "\<exists>zs. s = zs @ t" ..
next
  assume "\<exists>zs. s = zs @ t"
  then show "endswith s t" by (auto simp: endswith_def)
qed

lemma endswith_append [simp]: "endswith (zs @ t) t"
  by (auto simp: endswith_iff)

lemma endswith_last:
  assumes "endswith s t" and "t \<noteq> []"
  shows "s \<noteq> [] \<and> last s = last t"
  using assms by (auto simp: endswith_iff)

lemma split_str_not_Nil [simp]: "split_str sep s \<noteq> []"
  by (induction s) (auto split: list.splits)

lemma split_str_no_sep: "sep \<notin> set s \<Longrightarrow> split_str sep s = [s]"
  by (induction s) auto

lemma split_str_append_sep:
  "sep \<notin> set s \<Longrightarrow> split_str sep (p @ sep # s) = split_str sep p @ [s]"
proof (induction p)
  case Nil
  then show ?case by (simp add: split_str_no_sep)
next
  case (Cons c p)
  then show ?case by (cases "split_str sep p") auto
qed

lemma join_split_str: "join [sep] (split_str sep s) = s"
proof (induction s)
  case Nil
  show ?case by simp
next
  case (Cons c s)
  obtain p ps where ps: "split_str sep s = p # ps"
    by (cases "split_str sep s") auto
  show ?case
  proof (cases "c = sep")
    case True
    with Cons ps show ?thesis by simp
  next
    case False
    with Cons ps show ?thesis by (cases ps) auto
  qed
qed

lemma strip_last_piece:
  "sep \<notin> set s \<Longrightarrow> join [sep] (butlast (split_str sep (p @ sep # s))) = p"
  by (simp add: split_str_append_sep join_split_str)

section \<open>Properties of \<^verbatim>\<open>get_poetry_venv\<close>\<close>

lemma get_poetry_venv_replaces:
  assumes "env ''VIRTUAL_ENV'' = Some (p @ ''-'' @ old)"
    and "CHR ''-'' \<notin> set old"
    and "\<not> endswith (p @ ''-'' @ old) (''py'' @ v)"
  shows "get_poetry_venv v env = Inr (p @ ''-py'' @ v)"
  using assms strip_last_piece [of "CHR ''-''" old p]
  by (simp add: get_poetry_venv_def)

lemma get_poetry_venv_endswith:
  assumes "get_poetry_venv v env = Inr r"
  shows "endswith r (''py'' @ v)"
proof (cases "env ''VIRTUAL_ENV''")
  case None
  with assms show ?thesis by (simp add: get_poetry_venv_def)
next
  case (Some cur)
  show ?thesis
  proof (cases "endswith cur (''py'' @ v)")
    case True
    with assms Some show ?thesis by (simp add: get_poetry_venv_def)
  next
    case False
    with assms Some
    have "r = (join ''-'' (butlast (split_str CHR ''-'' cur)) @ ''-'') @ (''py'' @ v)"
      by (simp add: get_poetry_venv_def)
    then show ?thesis by (simp only: endswith_append)
  qed
qed

section \<open>Properties of the decorator's loop\<close>

lemma run_version_returns:
  assumes "run_version func v w = (None, w', calls)"
  shows "environ w' ''PATH'' = environ w ''PATH''"
    and "environ w ''PATH'' \<noteq> None"
    and "python_version w' = None"
    and "\<exists>w1. calls = [w1] \<and> python_version w1 = Some v"
  using assms
  by (auto simp: run_version_def setpath_def with_block_def Let_def
      split: sum.splits option.splits prod.splits)

lemma run_version_raises:
  assumes "get_poetry_venv v (environ w) = Inr venv"
    and "environ w ''PATH'' = Some p"
    and "func (w\<lparr>environ := (environ w)(''PATH'' \<mapsto> bin_dir venv @ '':'' @ p),
                 python_version := Some v\<rparr>) = (Some e, w')"
  shows "run_version func v w =
           (Some e, w', [w\<lparr>environ := (environ w)(''PATH'' \<mapsto> bin_dir venv @ '':'' @ p),
                           python_version := Some v\<rparr>])"
  using assms by (simp add: run_version_def setpath_def with_block_def)

lemma wrapped_logged_append:
  "wrapped_logged func (xs @ ys) w =
     (case wrapped_logged func xs w of
        (Some e, w', calls) \<Rightarrow> (Some e, w', calls)
      | (None, w', calls) \<Rightarrow>
          (case wrapped_logged func ys w' of
             (r, w'', calls') \<Rightarrow> (r, w'', calls @ calls')))"
  by (induction xs arbitrary: w) (auto split: prod.splits option.splits)

lemma wrapped_logged_Cons_returns:
  assumes "wrapped_logged func (v # vs) w = (None, w', calls)"
  obtains w1 c1 calls' where "run_version func v w = (None, w1, c1)"
    and "wrapped_logged func vs w1 = (None, w', calls')" and "calls = c1 @ calls'"
  using assms by (auto split: prod.splits option.splits)

lemma wrapped_logged_calls:
  "wrapped_logged func vs w = (None, w', calls) \<Longrightarrow> map python_version calls = map Some vs"
proof (induction vs arbitrary: w calls)
  case Nil
  then show ?case by simp
next
  case (Cons v vs)
  from Cons.prems obtain w1 c1 calls' where
    step: "run_version func v w = (None, w1, c1)"
    and rest: "wrapped_logged func vs w1 = (None, w', calls')"
    and calls: "calls = c1 @ calls'"
    by (rule wrapped_logged_Cons_returns)
  from step have "map python_version c1 = [Some v]"
    using run_version_returns(4) by fastforce
  with Cons.IH [OF rest] calls show ?case by simp
qed

lemma wrapped_logged_PATH:
  "wrapped_logged func vs w = (None, w', calls) \<Longrightarrow> environ w' ''PATH'' = environ w ''PATH''"
proof (induction vs arbitrary: w calls)
  case Nil
  then show ?case by simp
next
  case (Cons v vs)
  from Cons.prems obtain w1 c1 calls' where
    step: "run_version func v w = (None, w1, c1)"
    and rest: "wrapped_logged func vs w1 = (None, w', calls')"
    by (rule wrapped_logged_Cons_returns)
  from Cons.IH [OF rest] run_version_returns(1) [OF step] show ?case by simp
qed

lemma wrapped_logged_clears:
  "wrapped_logged func vs w = (None, w', calls) \<Longrightarrow> vs \<noteq> [] \<Longrightarrow> python_version w' = None"
proof (induction vs arbitrary: w calls)
  case Nil
  then show ?case by simp
next
  case (Cons v vs)
  from Cons.prems(1) obtain w1 c1 calls' where
    step: "run_version func v w = (None, w1, c1)"
    and rest: "wrapped_logged func vs w1 = (None, w', calls')"
    by (rule wrapped_logged_Cons_returns)
  show ?case
  proof (cases "vs = []")
    case True
    with rest have "w' = w1" by simp
    with run_version_returns(3) [OF step] show ?thesis by simp
  next
    case False
    with Cons.IH [OF rest] show ?thesis by simp
  qed
qed

lemma wrapped_logged_prefix:
  assumes "wrapped_logged func vs w = (None, w', calls)"
  shows "\<exists>w1 c1. wrapped_logged func (take k vs) w = (None, w1, c1)"
proof -
  have "wrapped_logged func (take k vs @ drop k vs) w = (None, w', calls)"
    using assms by simp
  then show ?thesis
    unfolding wrapped_logged_append by (auto split: prod.splits option.splits)
qed

lemma wrapped_returns_logged:
  "wrapped func vs w = (r, w') \<Longrightarrow> \<exists>calls. wrapped_logged func vs w = (r, w', calls)"
  by (auto simp: wrapped_def split: prod.splits)

lemma python_nonempty: "vs \<noteq> [] \<Longrightarrow> python (VList vs) func = wrapped func vs"
  by (simp add: python_def)

lemma python_falsy: "falsy versions \<Longrightarrow> python versions func = func"
  by (simp add: python_def)

lemma python_string: "s \<noteq> [] \<Longrightarrow> python (VStr s) func = wrapped func [s]"
  by (simp add: python_def)

text \<open>
  A whole call of the wrapped task that returns leaves \<^verbatim>\<open>PATH\<close> as it found it.
\<close>

lemma wrapped_restores_PATH:
  "wrapped func vs w = (None, w') \<Longrightarrow> environ w' ''PATH'' = environ w ''PATH''"
  using wrapped_returns_logged wrapped_logged_PATH by blast

lemmas eval_defs = PYTHON_VERSIONS_def w0_def env0_def run_version_def get_poetry_venv_def
  endswith_def setpath_def with_block_def check_types_def run_def bin_dir_def posix_root_def
  posix_segments_def wrapped_def body_calls_def python_def

section \<open>The claims\<close>

subsection \<open>Restoring the search path\<close>

text \<open>
  C1 says that \<^verbatim>\<open>PATH\<close> is restored after every environment-scoped invocation, also
  when the wrapped body raises. The code does not do that: \<^verbatim>\<open>setpath\<close> writes the saved
  value back on line 32, after a \<^verbatim>\<open>yield\<close> that is not in a \<^verbatim>\<open>try\<close>, so an exception
  in the block skips it. Here the task is \<^verbatim>\<open>check_types\<close> over \<^verbatim>\<open>PYTHON_VERSIONS\<close> and
  the command fails for version 3.7: the call raises, and \<^verbatim>\<open>PATH\<close> still starts with
  the directory of the 3.7 environment (and \<^verbatim>\<open>context.python_version\<close> is still set).
\<close>

theorem setpath_leaks_PATH_on_failure:
  "python (VList PYTHON_VERSIONS) (check_types (\<lambda>cmd. cmd \<noteq> ''mypy 3.7'')) w0 =
     (Some (TaskFailure ''mypy 3.7''),
      \<lparr>environ = env0(''PATH'' \<mapsto> ''/venvs/proj-Ab12-py3.7/bin:/usr/bin''),
       python_version = Some ''3.7'',
       effects = [''mypy 3.6'', ''mypy 3.7'']\<rparr>)
   \<and> environ w0 ''PATH'' = Some ''/usr/bin''
   \<and> environ (snd (python (VList PYTHON_VERSIONS) (check_types (\<lambda>cmd. cmd \<noteq> ''mypy 3.7'')) w0))
         ''PATH'' \<noteq> environ w0 ''PATH''"
  by (simp add: eval_defs)

text \<open>
  C2: an environment-scoped invocation (one round of the loop, lines 47 to 50) that
  completes normally leaves \<^verbatim>\<open>PATH\<close> exactly as it was before the invocation; the
  variable was set before, or the invocation would have raised.
\<close>

theorem run_version_restores_PATH:
  assumes "run_version func v w = (None, w', calls)"
  shows "environ w' ''PATH'' = environ w ''PATH'' \<and> environ w ''PATH'' \<noteq> None"
  using run_version_returns(1,2) [OF assms] by simp

theorem run_version_restores_PATH_witness:
  "run_version (check_types (\<lambda>cmd. True)) ''3.7'' w0 =
     (None, w0\<lparr>effects := [''mypy 3.7'']\<rparr>,
      [w0\<lparr>environ := env0(''PATH'' \<mapsto> ''/venvs/proj-Ab12-py3.7/bin:/usr/bin''),
          python_version := Some ''3.7''\<rparr>])
   \<and> environ (w0\<lparr>effects := [''mypy 3.7'']\<rparr>) ''PATH'' = environ w0 ''PATH''
   \<and> environ w0 ''PATH'' = Some ''/usr/bin''"
proof -
  have h: "run_version (check_types (\<lambda>cmd. True)) ''3.7'' w0 =
     (None, w0\<lparr>effects := [''mypy 3.7'']\<rparr>,
      [w0\<lparr>environ := env0(''PATH'' \<mapsto> ''/venvs/proj-Ab12-py3.7/bin:/usr/bin''),
          python_version := Some ''3.7''\<rparr>])"
    by (simp add: eval_defs)
  from run_version_restores_PATH [OF h] h show ?thesis
    by (simp add: w0_def env0_def)
qed

text \<open>
  C3: when the wrapped body raises during an environment-scoped invocation, nothing is
  written to \<^verbatim>\<open>PATH\<close> afterwards. The call of the wrapped task starts in any state
  \<open>start\<close>. The rounds for the versions \<open>done\<close> have returned
  and left the state \<open>w\<close>; in the round for \<open>v\<close> the body is called with the
  directory of the environment prepended to \<^verbatim>\<open>PATH\<close>, raises \<open>e\<close> and leaves \<^verbatim>\<open>PATH\<close>
  as it found it. Then the call of the wrapped task raises \<open>e\<close> with the state the
  body left, whose \<^verbatim>\<open>PATH\<close> is the scoped value and not the original one: that is
  what later operations of the process see.
\<close>

theorem PATH_not_restored_when_body_raises:
  assumes "wrapped func done start = (None, w)"
    and "get_poetry_venv v (environ w) = Inr venv"
    and "environ w ''PATH'' = Some p"
    and "func (w\<lparr>environ := (environ w)(''PATH'' \<mapsto> bin_dir venv @ '':'' @ p),
                 python_version := Some v\<rparr>) = (Some e, w')"
    and "environ w' ''PATH'' = Some (bin_dir venv @ '':'' @ p)"
  shows "python (VList (done @ v # rest)) func start = (Some e, w')
     \<and> environ start ''PATH'' = Some p
     \<and> environ w' ''PATH'' = Some (bin_dir venv @ '':'' @ p)
     \<and> environ w' ''PATH'' \<noteq> environ start ''PATH''"
proof -
  from assms(1) obtain c0 where d: "wrapped_logged func done start = (None, w, c0)"
    using wrapped_returns_logged by blast
  have "wrapped_logged func (v # rest) w =
          (Some e, w', [w\<lparr>environ := (environ w)(''PATH'' \<mapsto> bin_dir venv @ '':'' @ p),
                          python_version := Some v\<rparr>])"
    using run_version_raises [where func = func, OF assms(2,3,4)] by simp
  with d have "wrapped func (done @ v # rest) start = (Some e, w')"
    by (simp add: wrapped_logged_append wrapped_def)
  then have call: "python (VList (done @ v # rest)) func start = (Some e, w')"
    by (simp add: python_def)
  have orig: "environ start ''PATH'' = Some p"
    using wrapped_logged_PATH [OF d] assms(3) by simp
  have "bin_dir venv @ '':'' @ p \<noteq> p"
  proof
    assume "bin_dir venv @ '':'' @ p = p"
    then have "length (bin_dir venv @ '':'' @ p) = length p" by simp
    then show False by simp
  qed
  with call orig assms(5) show ?thesis by simp
qed

theorem PATH_not_restored_when_body_raises_witness:
  "python (VList ([''3.6'', ''3.7'', ''3.8''] @ ''3.10'' # []))
       (check_types (\<lambda>cmd. cmd \<noteq> ''mypy 3.10'')) w0 =
     (Some (TaskFailure ''mypy 3.10''),
      \<lparr>environ = env0(''PATH'' \<mapsto> ''/venvs/proj-Ab12-py3.10/bin:/usr/bin''),
       python_version = Some ''3.10'',
       effects = [''mypy 3.6'', ''mypy 3.7'', ''mypy 3.8'', ''mypy 3.10'']\<rparr>)
   \<and> environ w0 ''PATH'' = Some ''/usr/bin''"
proof -
  let ?f = "check_types (\<lambda>cmd. cmd \<noteq> ''mypy 3.10'')"
  let ?w = "w0\<lparr>effects := [''mypy 3.6'', ''mypy 3.7'', ''mypy 3.8'']\<rparr>"
  let ?w' = "\<lparr>environ = env0(''PATH'' \<mapsto> ''/venvs/proj-Ab12-py3.10/bin:/usr/bin''),
       python_version = Some ''3.10'',
       effects = [''mypy 3.6'', ''mypy 3.7'', ''mypy 3.8'', ''mypy 3.10'']\<rparr>"
  have h1: "wrapped ?f [''3.6'', ''3.7'', ''3.8''] w0 = (None, ?w)"
    by (simp add: eval_defs)
  have h2: "get_poetry_venv ''3.10'' (environ ?w) = Inr ''/venvs/proj-Ab12-py3.10''"
    by (simp add: eval_defs)
  have h3: "environ ?w ''PATH'' = Some ''/usr/bin''"
    by (simp add: eval_defs)
  have h4: "?f (?w\<lparr>environ := (environ ?w)(''PATH'' \<mapsto>
                    bin_dir ''/venvs/proj-Ab12-py3.10'' @ '':'' @ ''/usr/bin''),
                 python_version := Some ''3.10''\<rparr>) = (Some (TaskFailure ''mypy 3.10''), ?w')"
    by (simp add: eval_defs)
  have h5: "environ ?w' ''PATH'' =
              Some (bin_dir ''/venvs/proj-Ab12-py3.10'' @ '':'' @ ''/usr/bin'')"
    by (simp add: eval_defs)
  from PATH_not_restored_when_body_raises [where func = ?f and start = w0 and rest = "[]", OF h1 h2 h3 h4 h5]
  show ?thesis by simp
qed

subsection \<open>The decorator\<close>

text \<open>
  C4, as amended: for a sequence \<open>vs\<close> of versions that is not empty, a call of the
  wrapped task that returns without an exception has called the body exactly
  \<open>length vs\<close> times, once per version and in the order of the sequence, each time
  with \<^verbatim>\<open>context.python_version\<close> equal to that version; and after each of the
  rounds (the first \<open>k\<close> versions, for every \<open>k\<close> from 1 to \<open>length vs\<close>) the
  attribute is not on the context any more.
\<close>

theorem python_calls_body_once_per_version:
  assumes "vs \<noteq> []" and "python (VList vs) func w = (None, w')"
  shows "wrapped_logged func vs w = (None, w', body_calls func vs w)
     \<and> length (body_calls func vs w) = length vs
     \<and> map python_version (body_calls func vs w) = map Some vs
     \<and> (\<forall>k. 0 < k \<and> k \<le> length vs \<longrightarrow>
           python_version (snd (python (VList (take k vs)) func w)) = None)"
proof -
  from assms obtain calls where run: "wrapped_logged func vs w = (None, w', calls)"
    using wrapped_returns_logged by (fastforce simp: python_def)
  then have calls: "body_calls func vs w = calls"
    by (simp add: body_calls_def)
  have m: "map python_version calls = map Some vs"
    using run by (rule wrapped_logged_calls)
  then have "length (map python_version calls) = length (map Some vs)" by simp
  then have l: "length calls = length vs" by simp
  have "python_version (snd (python (VList (take k vs)) func w)) = None"
    if "0 < k" "k \<le> length vs" for k
  proof -
    from wrapped_logged_prefix [OF run, of k] obtain w1 c1
      where p: "wrapped_logged func (take k vs) w = (None, w1, c1)" by blast
    from that assms(1) have ne: "take k vs \<noteq> []" by (cases vs) auto
    from wrapped_logged_clears [OF p ne] p ne show ?thesis
      by (simp add: python_def wrapped_def)
  qed
  with run calls m l show ?thesis by blast
qed

theorem python_calls_body_once_per_version_witness:
  "PYTHON_VERSIONS \<noteq> []
   \<and> python (VList PYTHON_VERSIONS) (check_types (\<lambda>cmd. True)) w0 =
       (None, w0\<lparr>effects := [''mypy 3.6'', ''mypy 3.7'', ''mypy 3.8'', ''mypy 3.10'']\<rparr>)
   \<and> length (body_calls (check_types (\<lambda>cmd. True)) PYTHON_VERSIONS w0) = 4
   \<and> map python_version (body_calls (check_types (\<lambda>cmd. True)) PYTHON_VERSIONS w0) =
       [Some ''3.6'', Some ''3.7'', Some ''3.8'', Some ''3.10'']
   \<and> python_version (snd (python (VList (take 2 PYTHON_VERSIONS)) (check_types (\<lambda>cmd. True)) w0)) = None"
proof -
  have h1: "PYTHON_VERSIONS \<noteq> []"
    by (simp add: PYTHON_VERSIONS_def)
  have h2: "python (VList PYTHON_VERSIONS) (check_types (\<lambda>cmd. True)) w0 =
       (None, w0\<lparr>effects := [''mypy 3.6'', ''mypy 3.7'', ''mypy 3.8'', ''mypy 3.10'']\<rparr>)"
    by (simp add: eval_defs)
  have len: "length PYTHON_VERSIONS = 4"
    by (simp add: PYTHON_VERSIONS_def)
  from python_calls_body_once_per_version [OF h1 h2] have
    a: "length (body_calls (check_types (\<lambda>cmd. True)) PYTHON_VERSIONS w0) = length PYTHON_VERSIONS"
    and b: "map python_version (body_calls (check_types (\<lambda>cmd. True)) PYTHON_VERSIONS w0) =
       map Some PYTHON_VERSIONS"
    and c: "\<forall>k. 0 < k \<and> k \<le> length PYTHON_VERSIONS \<longrightarrow>
           python_version (snd (python (VList (take k PYTHON_VERSIONS)) (check_types (\<lambda>cmd. True)) w0)) = None"
    by blast+
  from c len have
    "python_version (snd (python (VList (take 2 PYTHON_VERSIONS)) (check_types (\<lambda>cmd. True)) w0)) = None"
    by simp
  with h1 h2 a b len show ?thesis
    by (simp add: PYTHON_VERSIONS_def)
qed

text \<open>
  The claim as written is about every call. An exception ends the loop of line 46: when
  the command of \<^verbatim>\<open>check_types\<close> fails for version 3.7, the call over the four
  versions of \<^verbatim>\<open>PYTHON_VERSIONS\<close> calls the body twice and not four times, with the
  versions 3.6 and 3.7 only, and the attribute is still on the context afterwards.
\<close>

theorem python_calls_body_raising_counterexample:
  "PYTHON_VERSIONS \<noteq> []
   \<and> length PYTHON_VERSIONS = 4
   \<and> length (body_calls (check_types (\<lambda>cmd. cmd \<noteq> ''mypy 3.7'')) PYTHON_VERSIONS w0) = 2
   \<and> map python_version (body_calls (check_types (\<lambda>cmd. cmd \<noteq> ''mypy 3.7'')) PYTHON_VERSIONS w0)
       = [Some ''3.6'', Some ''3.7'']
   \<and> map python_version (body_calls (check_types (\<lambda>cmd. cmd \<noteq> ''mypy 3.7'')) PYTHON_VERSIONS w0)
       \<noteq> map Some PYTHON_VERSIONS
   \<and> fst (python (VList PYTHON_VERSIONS) (check_types (\<lambda>cmd. cmd \<noteq> ''mypy 3.7'')) w0)
       = Some (TaskFailure ''mypy 3.7'')
   \<and> python_version (snd (python (VList PYTHON_VERSIONS)
        (check_types (\<lambda>cmd. cmd \<noteq> ''mypy 3.7'')) w0)) = Some ''3.7''"
  by (simp add: eval_defs)

text \<open>
  C5: for the empty sequence of versions the decorator returns the task body itself, so
  a call of the result is one call of the body in the state of the caller, with no
  change to \<^verbatim>\<open>PATH\<close> and no attribute set on the context.
\<close>

theorem python_empty_is_identity: "python (VList []) func = func"
  by (simp add: python_def)

subsection \<open>Tasks with pre-tasks and post-tasks\<close>

text \<open>
  C6: a task with the pre-tasks \<open>A\<close>, \<open>B\<close> and the post-task \<open>C\<close> (tasks without
  pre-tasks and post-tasks of their own). When \<open>A\<close>, \<open>B\<close> and the body return,
  one invocation has run \<open>A\<close>, then \<open>B\<close>, then the body, then \<open>C\<close>, each in the
  state the one before left, and its outcome is the outcome of \<open>C\<close>. When the second
  pre-task fails (\<open>B'\<close>), the invocation ends there with that failure: the body and
  \<open>C\<close> are not started and the state is the one \<open>B'\<close> left.
\<close>

theorem execute_pre_body_post_order:
  assumes "a w = (None, w1)"
  shows "(b w1 = (None, w2) \<and> func w2 = (None, w3) \<and> c w3 = (r, w4) \<longrightarrow>
            execute (Task n [Task na [] a [], Task nb [] b []] func [Task nc [] c []]) w =
              (r, w4, [na, nb, n, nc]))
     \<and> (b' w1 = (Some e, w2') \<longrightarrow>
            execute (Task n [Task na [] a [], Task nb [] b' []] func [Task nc [] c []]) w =
              (Some e, w2', [na, nb]))"
  using assms by (cases r) auto

theorem execute_pre_body_post_order_witness:
  "execute (Task ''T'' [Task ''A'' [] (run (\<lambda>cmd. cmd \<noteq> ''bad'') ''a'') [],
                        Task ''B'' [] (run (\<lambda>cmd. cmd \<noteq> ''bad'') ''b'') []]
             (run (\<lambda>cmd. cmd \<noteq> ''bad'') ''t'')
             [Task ''C'' [] (run (\<lambda>cmd. cmd \<noteq> ''bad'') ''c'') []]) w0 =
     (None, w0\<lparr>effects := [''a'', ''b'', ''t'', ''c'']\<rparr>, [''A'', ''B'', ''T'', ''C''])
   \<and> execute (Task ''T'' [Task ''A'' [] (run (\<lambda>cmd. cmd \<noteq> ''bad'') ''a'') [],
                          Task ''B'' [] (run (\<lambda>cmd. cmd \<noteq> ''bad'') ''bad'') []]
             (run (\<lambda>cmd. cmd \<noteq> ''bad'') ''t'')
             [Task ''C'' [] (run (\<lambda>cmd. cmd \<noteq> ''bad'') ''c'') []]) w0 =
     (Some (TaskFailure ''bad''), w0\<lparr>effects := [''a'', ''bad'']\<rparr>, [''A'', ''B''])"
proof -
  let ?ok = "\<lambda>cmd. cmd \<noteq> ''bad''"
  have a: "run ?ok ''a'' w0 = (None, w0\<lparr>effects := [''a'']\<rparr>)"
    by (simp add: run_def w0_def)
  have b: "run ?ok ''b'' (w0\<lparr>effects := [''a'']\<rparr>) = (None, w0\<lparr>effects := [''a'', ''b'']\<rparr>)"
    by (simp add: run_def w0_def)
  have t: "run ?ok ''t'' (w0\<lparr>effects := [''a'', ''b'']\<rparr>) =
             (None, w0\<lparr>effects := [''a'', ''b'', ''t'']\<rparr>)"
    by (simp add: run_def w0_def)
  have c: "run ?ok ''c'' (w0\<lparr>effects := [''a'', ''b'', ''t'']\<rparr>) =
             (None, w0\<lparr>effects := [''a'', ''b'', ''t'', ''c'']\<rparr>)"
    by (simp add: run_def w0_def)
  have b': "run ?ok ''bad'' (w0\<lparr>effects := [''a'']\<rparr>) =
             (Some (TaskFailure ''bad''), w0\<lparr>effects := [''a'', ''bad'']\<rparr>)"
    by (simp add: run_def w0_def)
  from execute_pre_body_post_order [where a = "run ?ok ''a''" and b = "run ?ok ''b''"
      and func = "run ?ok ''t''" and c = "run ?ok ''c''" and b' = "run ?ok ''bad''", OF a]
    b t c b'
  show ?thesis by blast
qed

subsection \<open>Resolving the directory of an environment\<close>

text \<open>
  C7, as amended: when the active environment path ends in \<^verbatim>\<open>-py3.6\<close>, that is, in
  the suffix \<^verbatim>\<open>py3.6\<close> after the separator \<^verbatim>\<open>-\<close>, requesting \<^verbatim>\<open>3.10\<close> yields the
  same path with \<^verbatim>\<open>-py3.10\<close> in the place of \<^verbatim>\<open>-py3.6\<close>: everything before the
  separator is unchanged.
\<close>

theorem get_poetry_venv_py36_to_py310:
  assumes "env ''VIRTUAL_ENV'' = Some (p @ ''-py3.6'')"
  shows "get_poetry_venv ''3.10'' env = Inr (p @ ''-py3.10'')"
proof -
  have "\<not> endswith (p @ ''-py3.6'') (''py'' @ ''3.10'')"
  proof
    assume "endswith (p @ ''-py3.6'') (''py'' @ ''3.10'')"
    then have "last (p @ ''-py3.6'') = last (''py'' @ ''3.10'')"
      using endswith_last by blast
    then show False by simp
  qed
  with get_poetry_venv_replaces [of env p "''py3.6''" "''3.10''"] assms
  show ?thesis by simp
qed

theorem get_poetry_venv_py36_to_py310_witness:
  "env0 ''VIRTUAL_ENV'' = Some (''/venvs/proj-Ab12'' @ ''-py3.6'')
   \<and> get_poetry_venv ''3.10'' env0 = Inr ''/venvs/proj-Ab12-py3.10''"
proof -
  have h: "env0 ''VIRTUAL_ENV'' = Some (''/venvs/proj-Ab12'' @ ''-py3.6'')"
    by (simp add: env0_def)
  from get_poetry_venv_py36_to_py310 [where env = env0, OF h] h show ?thesis by simp
qed

text \<open>
  The claim as written asks only that the path ends in \<^verbatim>\<open>py3.6\<close>. Line 23 cuts the
  path at its last \<^verbatim>\<open>-\<close>, wherever that is: for an environment in the directory
  \<^verbatim>\<open>/home/dev/venvs/py3.6\<close> the path has no \<^verbatim>\<open>-\<close>, all of it is cut, and the result
  is \<^verbatim>\<open>-py3.10\<close> and not \<^verbatim>\<open>/home/dev/venvs/py3.10\<close>.
\<close>

theorem get_poetry_venv_py36_counterexample:
  "endswith ''/home/dev/venvs/py3.6'' ''py3.6''
   \<and> get_poetry_venv ''3.10'' [''VIRTUAL_ENV'' \<mapsto> ''/home/dev/venvs/py3.6''] = Inr ''-py3.10''
   \<and> get_poetry_venv ''3.10'' [''VIRTUAL_ENV'' \<mapsto> ''/home/dev/venvs/py3.6'']
       \<noteq> Inr ''/home/dev/venvs/py3.10''"
  by (simp add: get_poetry_venv_def endswith_def)

text \<open>
  C8: for every identifier \<open>X\<close>, when the active environment path already ends with
  \<^verbatim>\<open>py\<close> followed by \<open>X\<close>, resolution returns that path as it is.
\<close>

theorem get_poetry_venv_noop:
  assumes "env ''VIRTUAL_ENV'' = Some cur" and "endswith cur (''py'' @ X)"
  shows "get_poetry_venv X env = Inr cur"
  using assms by (simp add: get_poetry_venv_def)

theorem get_poetry_venv_noop_witness:
  "env0 ''VIRTUAL_ENV'' = Some ''/venvs/proj-Ab12-py3.6''
   \<and> endswith ''/venvs/proj-Ab12-py3.6'' (''py'' @ ''3.6'')
   \<and> get_poetry_venv ''3.6'' env0 = Inr ''/venvs/proj-Ab12-py3.6''"
proof -
  have h1: "env0 ''VIRTUAL_ENV'' = Some ''/venvs/proj-Ab12-py3.6''"
    by (simp add: env0_def)
  have h2: "endswith ''/venvs/proj-Ab12-py3.6'' (''py'' @ ''3.6'')"
    by (simp add: endswith_def)
  from get_poetry_venv_noop [where env = env0, OF h1 h2] h1 h2 show ?thesis by simp
qed

text \<open>
  C9: when \<^verbatim>\<open>VIRTUAL_ENV\<close> is not in the process environment, resolution raises
  \<open>KeyError\<close> for every identifier: no value is returned in its place. Nothing in
  the decorator catches the exception: the call of the wrapped task raises it before the
  body is called once, with the state unchanged.
\<close>

theorem get_poetry_venv_missing_VIRTUAL_ENV:
  assumes "environ w ''VIRTUAL_ENV'' = None"
  shows "get_poetry_venv v (environ w) = Inl (KeyError ''VIRTUAL_ENV'')
     \<and> wrapped_logged func (v # vs) w = (Some (KeyError ''VIRTUAL_ENV''), w, [])
     \<and> python (VList (v # vs)) func w = (Some (KeyError ''VIRTUAL_ENV''), w)"
  using assms by (simp add: get_poetry_venv_def run_version_def python_def wrapped_def)

theorem get_poetry_venv_missing_VIRTUAL_ENV_witness:
  "environ (w0\<lparr>environ := [''PATH'' \<mapsto> ''/usr/bin'']\<rparr>) ''VIRTUAL_ENV'' = None
   \<and> get_poetry_venv ''3.6'' [''PATH'' \<mapsto> ''/usr/bin''] = Inl (KeyError ''VIRTUAL_ENV'')
   \<and> python (VList PYTHON_VERSIONS) (check_types (\<lambda>cmd. True))
        (w0\<lparr>environ := [''PATH'' \<mapsto> ''/usr/bin'']\<rparr>) =
       (Some (KeyError ''VIRTUAL_ENV''), w0\<lparr>environ := [''PATH'' \<mapsto> ''/usr/bin'']\<rparr>)"
proof -
  have h: "environ (w0\<lparr>environ := [''PATH'' \<mapsto> ''/usr/bin'']\<rparr>) ''VIRTUAL_ENV'' = None"
    by simp
  from get_poetry_venv_missing_VIRTUAL_ENV [OF h, of "''3.6''" "check_types (\<lambda>cmd. True)"
      "[''3.7'', ''3.8'', ''3.10'']"] h
  show ?thesis by (simp add: PYTHON_VERSIONS_def)
qed

text \<open>
  C10: for every active environment path and every identifier \<open>v\<close>, the resolved path
  ends with \<^verbatim>\<open>py\<close> followed by \<open>v\<close>; so resolving \<open>v\<close> again, with the result as
  the active environment path, returns the result unchanged.
\<close>

theorem get_poetry_venv_idempotent:
  assumes "env ''VIRTUAL_ENV'' = Some cur"
  shows "\<exists>r. get_poetry_venv v env = Inr r \<and> endswith r (''py'' @ v)
           \<and> get_poetry_venv v (env(''VIRTUAL_ENV'' \<mapsto> r)) = Inr r"
proof -
  obtain r where r: "get_poetry_venv v env = Inr r"
    using assms by (cases "endswith cur (''py'' @ v)") (simp_all add: get_poetry_venv_def)
  then have e: "endswith r (''py'' @ v)"
    by (rule get_poetry_venv_endswith)
  then have "get_poetry_venv v (env(''VIRTUAL_ENV'' \<mapsto> r)) = Inr r"
    by (simp add: get_poetry_venv_def)
  with r e show ?thesis by blast
qed

theorem get_poetry_venv_idempotent_witness:
  "env0 ''VIRTUAL_ENV'' = Some ''/venvs/proj-Ab12-py3.6''
   \<and> get_poetry_venv ''3.10'' env0 = Inr ''/venvs/proj-Ab12-py3.10''
   \<and> endswith ''/venvs/proj-Ab12-py3.10'' (''py'' @ ''3.10'')
   \<and> get_poetry_venv ''3.10'' (env0(''VIRTUAL_ENV'' \<mapsto> ''/venvs/proj-Ab12-py3.10'')) =
       Inr ''/venvs/proj-Ab12-py3.10''"
proof -
  have h: "env0 ''VIRTUAL_ENV'' = Some ''/venvs/proj-Ab12-py3.6''"
    by (simp add: env0_def)
  have v: "get_poetry_venv ''3.10'' env0 = Inr ''/venvs/proj-Ab12-py3.10''"
    by (simp add: env0_def get_poetry_venv_def endswith_def)
  from get_poetry_venv_idempotent [where env = env0 and v = "''3.10''", OF h] h v show ?thesis by simp
qed

end
